theory Spec2Isabelle
  imports Complex_Main "HOL-Library.Word"
begin

section \<open>Values of the platform\<close>

text \<open>
  A thrown JavaScript error is a value carrying its message. A rejected promise and a
  \<^verbatim>\<open>throw\<close> are both modelled as the left injection of a sum.
\<close>

datatype js_error = Error string | RangeError

fun message :: "js_error \<Rightarrow> string" where
  "message (Error m) = m"
| "message RangeError = ''Offset is outside the bounds of the DataView''"

definition bind_res :: "js_error + 'a \<Rightarrow> ('a \<Rightarrow> js_error + 'b) \<Rightarrow> js_error + 'b" where
  "bind_res m f = (case m of Inl e \<Rightarrow> Inl e | Inr v \<Rightarrow> f v)"

text \<open>
  The elements of a \<^verbatim>\<open>Float32Array\<close>: finite values, the two infinities and NaN.
  A finite element is modelled by the real number it denotes (negative zero is zero).
  Every binary32 value has a 24-bit significand, so its products with \<open>0x8000\<close> and
  \<open>0x7fff\<close> are exact in binary64 and agree with the products over the reals.
\<close>

datatype js_number = Finite real | PosInf | NegInf | NaN

fun math_min :: "js_number \<Rightarrow> js_number \<Rightarrow> js_number" where
  "math_min NaN y = NaN"
| "math_min x NaN = NaN"
| "math_min NegInf y = NegInf"
| "math_min x NegInf = NegInf"
| "math_min PosInf y = y"
| "math_min x PosInf = x"
| "math_min (Finite a) (Finite b) = Finite (min a b)"

fun math_max :: "js_number \<Rightarrow> js_number \<Rightarrow> js_number" where
  "math_max NaN y = NaN"
| "math_max x NaN = NaN"
| "math_max PosInf y = PosInf"
| "math_max x PosInf = PosInf"
| "math_max NegInf y = y"
| "math_max x NegInf = x"
| "math_max (Finite a) (Finite b) = Finite (max a b)"

text \<open>\<^verbatim>\<open>x < 0\<close>: false for NaN.\<close>

fun js_negative :: "js_number \<Rightarrow> bool" where
  "js_negative (Finite r) = (r < 0)"
| "js_negative NegInf = True"
| "js_negative PosInf = False"
| "js_negative NaN = False"

text \<open>\<^verbatim>\<open>x * k\<close> for a positive finite constant \<open>k\<close>.\<close>

fun js_times :: "js_number \<Rightarrow> real \<Rightarrow> js_number" where
  "js_times (Finite r) k = Finite (r * k)"
| "js_times PosInf k = PosInf"
| "js_times NegInf k = NegInf"
| "js_times NaN k = NaN"

text \<open>
  The conversion \<^verbatim>\<open>DataView.setInt16\<close> applies to its value (ToInt16): NaN and the
  infinities become 0, a finite value is truncated towards zero and reduced modulo
  \<open>2^16\<close> into the signed range.
\<close>

definition js_trunc :: "real \<Rightarrow> int" where
  "js_trunc r = (if r < 0 then - \<lfloor>- r\<rfloor> else \<lfloor>r\<rfloor>)"

fun ToInt16 :: "js_number \<Rightarrow> 16 word" where
  "ToInt16 (Finite r) = word_of_int (js_trunc r)"
| "ToInt16 PosInf = 0"
| "ToInt16 NegInf = 0"
| "ToInt16 NaN = 0"

section \<open>DataView over an ArrayBuffer\<close>

type_synonym byte = "8 word"

text \<open>The \<open>k\<close> low-order bytes of a number, least significant first.\<close>

fun le_bytes :: "nat \<Rightarrow> nat \<Rightarrow> byte list" where
  "le_bytes 0 v = []"
| "le_bytes (Suc k) v = of_nat (v mod 256) # le_bytes k (v div 256)"

text \<open>Reading a little-endian byte sequence back as a number.\<close>

fun le_nat :: "byte list \<Rightarrow> nat" where
  "le_nat [] = 0"
| "le_nat (b # bs) = unat b + 256 * le_nat bs"

definition slice :: "byte list \<Rightarrow> nat \<Rightarrow> nat \<Rightarrow> byte list" where
  "slice bs off n = take n (drop off bs)"

text \<open>
  Every setter of a DataView throws a RangeError when the bytes it writes do not lie
  inside the view, and replaces exactly those bytes otherwise.
\<close>

definition write_at :: "byte list \<Rightarrow> nat \<Rightarrow> byte list \<Rightarrow> js_error + byte list" where
  "write_at view off bs =
     (if off + length bs \<le> length view
      then Inr (take off view @ bs @ drop (off + length bs) view)
      else Inl RangeError)"

definition setUint8 :: "byte list \<Rightarrow> nat \<Rightarrow> nat \<Rightarrow> js_error + byte list" where
  "setUint8 view off v = write_at view off (le_bytes 1 (v mod 2 ^ 8))"

definition setUint16 :: "byte list \<Rightarrow> nat \<Rightarrow> nat \<Rightarrow> js_error + byte list" where
  "setUint16 view off v = write_at view off (le_bytes 2 (v mod 2 ^ 16))"

definition setUint32 :: "byte list \<Rightarrow> nat \<Rightarrow> nat \<Rightarrow> js_error + byte list" where
  "setUint32 view off v = write_at view off (le_bytes 4 (v mod 2 ^ 32))"

definition setInt16 :: "byte list \<Rightarrow> nat \<Rightarrow> js_number \<Rightarrow> js_error + byte list" where
  "setInt16 view off x = write_at view off (le_bytes 2 (unat (ToInt16 x)))"

definition charCodeAt :: "char \<Rightarrow> nat" where
  "charCodeAt c = of_char c"

fun writeString :: "byte list \<Rightarrow> nat \<Rightarrow> string \<Rightarrow> js_error + byte list" where
  "writeString view off [] = Inr view"
| "writeString view off (c # cs) =
     bind_res (setUint8 view off (charCodeAt c)) (\<lambda>v. writeString v (off + 1) cs)"

section \<open>The WAV encoder\<close>

record blob =
  blob_bytes :: "byte list"
  blob_type :: string

definition clamp_sample :: "js_number \<Rightarrow> js_number" where
  "clamp_sample x = math_max (Finite (- 1)) (math_min (Finite 1) x)"

definition scale_sample :: "js_number \<Rightarrow> js_number" where
  "scale_sample s = (if js_negative s then js_times s 32768 else js_times s 32767)"

fun write_samples :: "byte list \<Rightarrow> nat \<Rightarrow> js_number list \<Rightarrow> js_error + byte list" where
  "write_samples view off [] = Inr view"
| "write_samples view off (x # xs) =
     bind_res (setInt16 view off (scale_sample (clamp_sample x)))
       (\<lambda>v. write_samples v (off + 2) xs)"

definition write_header :: "byte list \<Rightarrow> nat \<Rightarrow> js_error + byte list" where
  "write_header view len =
     (let numberOfChannels = 1; sampleRate = 16000 in
      bind_res (writeString view 0 ''RIFF'') (\<lambda>v.
      bind_res (setUint32 v 4 (36 + len * 2)) (\<lambda>v.
      bind_res (writeString v 8 ''WAVE'') (\<lambda>v.
      bind_res (writeString v 12 ''fmt '') (\<lambda>v.
      bind_res (setUint32 v 16 16) (\<lambda>v.
      bind_res (setUint16 v 20 1) (\<lambda>v.
      bind_res (setUint16 v 22 numberOfChannels) (\<lambda>v.
      bind_res (setUint32 v 24 sampleRate) (\<lambda>v.
      bind_res (setUint32 v 28 (sampleRate * numberOfChannels * 2)) (\<lambda>v.
      bind_res (setUint16 v 32 (numberOfChannels * 2)) (\<lambda>v.
      bind_res (setUint16 v 34 16) (\<lambda>v.
      bind_res (writeString v 36 ''data'') (\<lambda>v.
      setUint32 v 40 (len * 2))))))))))))))"

text \<open>
  \<open>convertToWav\<close>. The platform's \<^verbatim>\<open>decodeAudioData\<close> is a parameter: it maps
  the bytes of the clip to the error it rejects with or to channel 0 of the decoded
  buffer, whose number of elements is the buffer's \<^verbatim>\<open>length\<close>. The
  \<^verbatim>\<open>finally\<close> block closes the decoding context on both paths and does not change
  the result.
\<close>

definition convertToWav :: "(byte list \<Rightarrow> js_error + js_number list) \<Rightarrow> blob \<Rightarrow> js_error + blob" where
  "convertToWav decodeAudioData b =
     bind_res (decodeAudioData (blob_bytes b)) (\<lambda>channelData.
       let len = length channelData;
           wavBuffer = replicate (44 + len * 2) (0 :: byte)
       in bind_res (write_header wavBuffer len) (\<lambda>view.
          bind_res (write_samples view 44 channelData) (\<lambda>view.
            Inr \<lparr>blob_bytes = view, blob_type = ''audio/wav''\<rparr>)))"

text \<open>
  Notions used to state what the encoder produces: the bytes of an ASCII tag, the two
  bytes stored for one sample, and the 44 bytes of the canonical header.
\<close>

definition ascii :: "string \<Rightarrow> byte list" where
  "ascii s = map (\<lambda>c. of_nat (charCodeAt c)) s"

definition sample_bytes :: "js_number \<Rightarrow> byte list" where
  "sample_bytes x = le_bytes 2 (unat (ToInt16 (scale_sample (clamp_sample x))))"

definition header_bytes :: "nat \<Rightarrow> byte list" where
  "header_bytes len =
     ascii ''RIFF'' @ le_bytes 4 ((36 + len * 2) mod 2 ^ 32) @ ascii ''WAVE'' @ ascii ''fmt '' @
     le_bytes 4 16 @ le_bytes 2 1 @ le_bytes 2 1 @ le_bytes 4 16000 @ le_bytes 4 32000 @
     le_bytes 2 2 @ le_bytes 2 16 @ ascii ''data'' @ le_bytes 4 ((len * 2) mod 2 ^ 32)"

section \<open>The recording hook\<close>

datatype track_state = Live | Ended

text \<open>
  The state the hook's stop handler works on: the buffered chunks, the microphone
  stream held in \<open>streamRef\<close> (whether the reference is set, and the state of the
  stream's tracks) and the published clip.
\<close>

record recording =
  rec_chunks :: "blob list"
  rec_mimeType :: string
  rec_streamRef :: bool
  rec_tracks :: "track_state list"
  audioData :: "blob option"

text \<open>
  \<^verbatim>\<open>mediaRecorder.onstop\<close> of \<open>useRecording\<close>. The handler awaits \<open>convertToWav\<close>
  outside any \<^verbatim>\<open>try\<close>: when the conversion rejects, the handler's promise rejects
  there and the statements after the \<^verbatim>\<open>await\<close> do not run.
\<close>

definition useRecording_onstop ::
  "(byte list \<Rightarrow> js_error + js_number list) \<Rightarrow> recording \<Rightarrow> js_error option \<times> recording" where
  "useRecording_onstop decodeAudioData s =
     (let audioBlob = \<lparr>blob_bytes = concat (map blob_bytes (rec_chunks s)),
                       blob_type = rec_mimeType s\<rparr>
      in case convertToWav decodeAudioData audioBlob of
           Inl e \<Rightarrow> (Some e, s)
         | Inr wavBlob \<Rightarrow>
             (let s1 = s\<lparr>audioData := Some wavBlob\<rparr>
              in (None,
                  if rec_streamRef s1
                  then s1\<lparr>rec_tracks := map (\<lambda>track. Ended) (rec_tracks s1), rec_streamRef := False\<rparr>
                  else s1)))"

section \<open>Strings\<close>

text \<open>
  Strings are sequences of code units in the range U+0000 to U+00FF. On these,
  \<^verbatim>\<open>\s\<close> matches tab, line feed, vertical tab, form feed, carriage return, space
  and the no-break space, and \<^verbatim>\<open>toLowerCase\<close> maps A to Z and the capital letters
  of the Latin-1 supplement to their lower-case forms.
\<close>

definition is_space :: "char \<Rightarrow> bool" where
  "is_space c = (of_char c \<in> {9, 10, 11, 12, 13, 32, 160 :: nat})"

definition js_trim :: "string \<Rightarrow> string" where
  "js_trim s = rev (dropWhile is_space (rev (dropWhile is_space s)))"

definition lower_char :: "char \<Rightarrow> char" where
  "lower_char c =
     (let n = of_char c :: nat
      in if (65 \<le> n \<and> n \<le> 90) \<or> (192 \<le> n \<and> n \<le> 222 \<and> n \<noteq> 215)
         then char_of (n + 32) else c)"

definition toLowerCase :: "string \<Rightarrow> string" where
  "toLowerCase s = map lower_char s"

text \<open>\<^verbatim>\<open>text.split(/\s+/)\<close>: the pieces between maximal runs of whitespace.\<close>

function split_ws :: "string \<Rightarrow> string list" where
  "split_ws s =
     (let w = takeWhile (\<lambda>c. \<not> is_space c) s;
          r = dropWhile (\<lambda>c. \<not> is_space c) s
      in if r = [] then [w] else w # split_ws (dropWhile is_space r))"
  by pat_completeness auto
termination
proof (relation "measure length")
  show "wf (measure length)" by simp
next
  fix s :: string and w r
  assume r: "r = dropWhile (\<lambda>c. \<not> is_space c) s" and ne: "r \<noteq> []"
  from ne have "is_space (hd r)"
    unfolding r using hd_dropWhile [of "\<lambda>c. \<not> is_space c" s] by simp
  with ne have "length (dropWhile is_space r) < length r"
    by (cases r) (simp_all add: le_imp_less_Suc length_dropWhile_le)
  also have "length r \<le> length s"
    unfolding r by (rule length_dropWhile_le)
  finally show "(dropWhile is_space r, s) \<in> measure length" by simp
qed

declare split_ws.simps [simp del]

definition tokenize :: "string \<Rightarrow> string list" where
  "tokenize t = filter (\<lambda>w. length w > 0) (split_ws t)"

text \<open>\<^verbatim>\<open>words.join(' ')\<close>.\<close>

fun js_join :: "string list \<Rightarrow> string" where
  "js_join [] = []"
| "js_join [w] = w"
| "js_join (w # ws) = w @ '' '' @ js_join ws"

text \<open>Decimal rendering of a non-negative integer, as in a template literal.\<close>

fun show_nat :: "nat \<Rightarrow> string" where
  "show_nat n =
     (if n < 10 then [char_of (48 + n)]
      else show_nat (n div 10) @ [char_of (48 + n mod 10)])"

declare show_nat.simps [simp del]

section \<open>The correction detector\<close>

record DictionaryEntry =
  de_id :: string
  de_original :: string
  de_corrected :: string
  de_caseSensitive :: bool
  de_enabled :: bool
  de_createdAt :: nat

record DetectedCorrection =
  original :: string
  corrected :: string

text \<open>
  The index-wise differences of two token lists. The loop runs over the indices of the
  first list and is entered only when both lists have the same length.
\<close>

definition differences :: "string list \<Rightarrow> string list \<Rightarrow> DetectedCorrection list" where
  "differences originalWords editedWords =
     map (\<lambda>(a, b). \<lparr>original = a, corrected = b\<rparr>)
       (filter (\<lambda>(a, b). toLowerCase a \<noteq> toLowerCase b) (zip originalWords editedWords))"

definition alreadyExists :: "DictionaryEntry list \<Rightarrow> string \<Rightarrow> bool" where
  "alreadyExists existingDictionary w =
     list_ex (\<lambda>entry. toLowerCase (de_original entry) = toLowerCase w) existingDictionary"

text \<open>The first block of \<open>detectWordCorrection\<close>: equal counts, one differing index.\<close>

definition single_word_rule ::
  "string list \<Rightarrow> string list \<Rightarrow> DictionaryEntry list \<Rightarrow> DetectedCorrection option" where
  "single_word_rule originalWords editedWords existingDictionary =
     (if length originalWords = length editedWords
      then (case differences originalWords editedWords of
              [diff] \<Rightarrow> if \<not> alreadyExists existingDictionary (original diff)
                        then Some diff else None
            | _ \<Rightarrow> None)
      else None)"

definition removed_words :: "string list \<Rightarrow> string list \<Rightarrow> string list" where
  "removed_words originalWords editedWords =
     filter (\<lambda>w. toLowerCase w \<notin> set (map toLowerCase editedWords)) originalWords"

definition added_words :: "string list \<Rightarrow> string list \<Rightarrow> string list" where
  "added_words originalWords editedWords =
     filter (\<lambda>w. toLowerCase w \<notin> set (map toLowerCase originalWords)) editedWords"

text \<open>The second block: the counts differ by at most two (the guard admits equal counts).\<close>

definition phrase_rule ::
  "string list \<Rightarrow> string list \<Rightarrow> DictionaryEntry list \<Rightarrow> DetectedCorrection option" where
  "phrase_rule originalWords editedWords existingDictionary =
     (if \<bar>int (length originalWords) - int (length editedWords)\<bar> \<le> 2
      then (let removed = removed_words originalWords editedWords;
                added = added_words originalWords editedWords
            in case added of
                 [a] \<Rightarrow>
                   if length removed \<ge> 1
                   then (let orig = js_join removed; corr = a
                         in if \<not> alreadyExists existingDictionary orig
                               \<and> toLowerCase orig \<noteq> toLowerCase corr
                            then Some \<lparr>original = orig, corrected = corr\<rparr> else None)
                   else None
               | _ \<Rightarrow> None)
      else None)"

definition detectWordCorrection ::
  "string \<Rightarrow> string \<Rightarrow> DictionaryEntry list \<Rightarrow> DetectedCorrection option" where
  "detectWordCorrection originalText editedText existingDictionary =
     (if originalText = [] \<or> editedText = [] \<or> originalText = editedText then None
      else (let originalWords = tokenize originalText;
                editedWords = tokenize editedText
            in case single_word_rule originalWords editedWords existingDictionary of
                 Some diff \<Rightarrow> Some diff
               | None \<Rightarrow> phrase_rule originalWords editedWords existingDictionary))"

section \<open>Post-processing\<close>

text \<open>
  The options object. The interface declares the six flags; the objects the callers
  build have one more own property, \<^verbatim>\<open>dictionary\<close>, an array. The field is
  \<open>None\<close> when the object has no such property.
\<close>

record PostProcessingOptions =
  removeFillerWords :: bool
  removeFalseStarts :: bool
  fixPunctuation :: bool
  fixCapitalization :: bool
  fixGrammar :: bool
  smartFormatting :: bool
  dictionary :: "DictionaryEntry list option"

text \<open>
  \<^verbatim>\<open>Object.values(options)\<close>: the values of all own properties, in the order the
  properties were created. A boolean is truthy when it is true, an array always.
\<close>

datatype js_value = Boolean bool | Array "DictionaryEntry list"

fun truthy :: "js_value \<Rightarrow> bool" where
  "truthy (Boolean b) = b"
| "truthy (Array entries) = True"

definition object_values :: "PostProcessingOptions \<Rightarrow> js_value list" where
  "object_values options =
     [Boolean (removeFillerWords options), Boolean (removeFalseStarts options),
      Boolean (fixPunctuation options), Boolean (fixCapitalization options),
      Boolean (fixGrammar options), Boolean (smartFormatting options)] @
     (case dictionary options of None \<Rightarrow> [] | Some entries \<Rightarrow> [Array entries])"

datatype instruction =
  RemoveFillers | RemoveFalseStarts | AddPunctuation | FixCapitalization | FixGrammar
  | FormatNumbers

text \<open>
  The request sent to the chat-completion endpoint. Its two prompts are assembled from
  the list of instructions and from the text; the other fields are constants.
\<close>

record chat_request =
  req_model :: string
  req_instructions :: "instruction list"
  req_text :: string
  req_max_tokens :: nat

text \<open>
  What the call does: it throws, or it returns a response whose first choice has message
  content or has none.
\<close>

datatype chat_outcome = ChatThrows js_error | ChatContent "string option"

definition some_enabled :: "PostProcessingOptions \<Rightarrow> bool" where
  "some_enabled options = list_ex truthy (object_values options)"

definition instructions :: "PostProcessingOptions \<Rightarrow> instruction list" where
  "instructions options =
     (if removeFillerWords options then [RemoveFillers] else []) @
     (if removeFalseStarts options then [RemoveFalseStarts] else []) @
     (if fixPunctuation options then [AddPunctuation] else []) @
     (if fixCapitalization options then [FixCapitalization] else []) @
     (if fixGrammar options then [FixGrammar] else []) @
     (if smartFormatting options then [FormatNumbers] else [])"

definition cleanup_request :: "string \<Rightarrow> PostProcessingOptions \<Rightarrow> chat_request" where
  "cleanup_request t options =
     \<lparr>req_model = ''llama-3.3-70b-versatile'', req_instructions = instructions options,
      req_text = t, req_max_tokens = 1024\<rparr>"

text \<open>
  \<open>postProcessTranscription\<close> returns the text it resolves with, paired with the
  requests it issued. The endpoint is the parameter \<open>create\<close>, called with the API key
  of the client and the request.
\<close>

definition postProcessTranscription ::
  "string \<Rightarrow> string \<Rightarrow> PostProcessingOptions \<Rightarrow> (string \<Rightarrow> chat_request \<Rightarrow> chat_outcome)
   \<Rightarrow> string \<times> chat_request list" where
  "postProcessTranscription t apiKey options create =
     (if \<not> some_enabled options then (t, [])
      else (let request = cleanup_request t options
            in case create apiKey request of
                 ChatThrows e \<Rightarrow> (t, [request])
               | ChatContent None \<Rightarrow> (t, [request])
               | ChatContent (Some result) \<Rightarrow>
                   (if js_trim result = [] then t else js_trim result, [request])))"

text \<open>
  The ways the remote cleanup can fail: the call throws, the response has no message
  content, or the content trims to the empty string.
\<close>

fun cleanup_failed :: "chat_outcome \<Rightarrow> bool" where
  "cleanup_failed (ChatThrows e) = True"
| "cleanup_failed (ChatContent None) = True"
| "cleanup_failed (ChatContent (Some result)) = (js_trim result = [])"

section \<open>The overlay's stop handler\<close>

record Settings =
  apiKey :: string
  aiPostProcessing :: bool
  set_removeFillerWords :: bool
  set_removeFalseStarts :: bool
  set_fixPunctuation :: bool
  set_fixGrammar :: bool
  incognitoMode :: bool

record TranscriptionRecord =
  tr_id :: string
  tr_text :: string
  tr_timestamp :: nat
  tr_wordCount :: nat

text \<open>The calls the handler makes to the network, to the main process and to timers.\<close>

datatype effect =
  GetSettings
  | TranscribeAudio nat string string
  | ChatCompletion chat_request
  | AddWords nat
  | AddToHistory TranscriptionRecord
  | TypeText string
  | ClearErrorAfter nat
  | RecordingStopped

text \<open>
  The outcomes of those calls, as the handler sees them. A clip is represented by its
  size and MIME type.
\<close>

record world =
  mimeType :: string
  getSettings :: "js_error + Settings"
  transcribeAudio :: "nat \<Rightarrow> string \<Rightarrow> string \<Rightarrow> js_error + string"
  create_completion :: "string \<Rightarrow> chat_request \<Rightarrow> chat_outcome"
  addWords :: "nat \<Rightarrow> js_error option"
  addToHistory :: "TranscriptionRecord \<Rightarrow> js_error option"
  typeText :: "string \<Rightarrow> js_error + bool"
  dateNow :: nat

text \<open>
  The component's state: the two React states, the references, the microphone stream's
  tracks and the analysis context, and the log of calls made so far.
\<close>

record overlay =
  isProcessing :: bool
  error :: "string option"
  chunksRef :: "nat list"
  streamRef :: bool
  tracks :: "track_state list"
  audioContextRef :: bool
  context_closed :: bool
  analyserRef :: bool
  dataArrayRef :: bool
  mediaRecorderRef :: bool
  dictionaryRef :: "DictionaryEntry list"
  calls :: "effect list"

definition setError :: "string option \<Rightarrow> overlay \<Rightarrow> overlay" where
  "setError e s = s\<lparr>error := e\<rparr>"

definition call :: "effect \<Rightarrow> overlay \<Rightarrow> overlay" where
  "call c s = s\<lparr>calls := calls s @ [c]\<rparr>"

text \<open>
  The post-processing stage, with the options object the handler builds: four flags
  from the settings, two constants and \<^verbatim>\<open>dictionary: dictionaryRef.current\<close>.
\<close>

definition overlay_options :: "Settings \<Rightarrow> DictionaryEntry list \<Rightarrow> PostProcessingOptions" where
  "overlay_options settings entries =
     \<lparr>removeFillerWords = set_removeFillerWords settings,
      removeFalseStarts = set_removeFalseStarts settings,
      fixPunctuation = set_fixPunctuation settings,
      fixCapitalization = True,
      fixGrammar = set_fixGrammar settings,
      smartFormatting = False,
      dictionary = Some entries\<rparr>"

definition post_process_stage :: "world \<Rightarrow> Settings \<Rightarrow> string \<Rightarrow> overlay \<Rightarrow> string \<times> overlay" where
  "post_process_stage w settings t s =
     (if aiPostProcessing settings \<and> js_trim t \<noteq> []
      then (let (t', requests) =
                  postProcessTranscription t (apiKey settings)
                    (overlay_options settings (dictionaryRef s)) (create_completion w)
            in (t', s\<lparr>calls := calls s @ map ChatCompletion requests\<rparr>))
      else (t, s))"

definition count_words :: "world \<Rightarrow> Settings \<Rightarrow> string \<Rightarrow> nat \<Rightarrow> overlay \<Rightarrow> js_error option \<times> overlay" where
  "count_words w settings t wordCount s =
     (if wordCount > 0
      then (let s1 = call (AddWords wordCount) s
            in case addWords w wordCount of
                 Some e \<Rightarrow> (Some e, s1)
               | None \<Rightarrow>
                   if \<not> incognitoMode settings
                   then (let r = \<lparr>tr_id = show_nat (dateNow w), tr_text = js_trim t,
                                   tr_timestamp = dateNow w, tr_wordCount = wordCount\<rparr>
                         in (addToHistory w r, call (AddToHistory r) s1))
                   else (None, s1))
      else (None, s))"

definition deliver :: "world \<Rightarrow> Settings \<Rightarrow> string \<Rightarrow> overlay \<Rightarrow> js_error option \<times> overlay" where
  "deliver w settings t s =
     (if js_trim t \<noteq> []
      then (let wordCount = length (tokenize (js_trim t))
            in case count_words w settings t wordCount s of
                 (Some e, s1) \<Rightarrow> (Some e, s1)
               | (None, s1) \<Rightarrow>
                   (let s2 = call (TypeText t) s1
                    in case typeText w t of
                         Inl e \<Rightarrow> (Some e, s2)
                       | Inr pasteSuccess \<Rightarrow> (None, s2)))
      else (None, setError (Some ''Empty result'') s))"

text \<open>The body of the \<^verbatim>\<open>try\<close>: the error it throws, if any, and the state it leaves.\<close>

definition try_block :: "world \<Rightarrow> overlay \<Rightarrow> js_error option \<times> overlay" where
  "try_block w s =
     (if length (chunksRef s) = 0
      then (Some (Error ''No audio data collected''), setError (Some ''No audio'') s)
      else (let size = sum_list (chunksRef s)
            in if size < 100
               then (Some (Error ''Audio too short''), setError (Some ''Too short'') s)
               else (let s1 = call GetSettings s
                     in case getSettings w of
                          Inl e \<Rightarrow> (Some e, s1)
                        | Inr settings \<Rightarrow>
                            if apiKey settings = []
                            then (Some (Error ''No API key configured''),
                                  setError (Some ''No API key'') s1)
                            else (let s2 = call (TranscribeAudio size (mimeType w) (apiKey settings)) s1
                                  in case transcribeAudio w size (mimeType w) (apiKey settings) of
                                       Inl e \<Rightarrow> (Some e, s2)
                                     | Inr t \<Rightarrow>
                                         (let (t', s3) = post_process_stage w settings t s2
                                          in deliver w settings t' s3)))))"

definition catch_block :: "js_error \<Rightarrow> overlay \<Rightarrow> overlay" where
  "catch_block err s =
     call (ClearErrorAfter 3000)
       (setError (Some (if take 15 (message err) = [] then ''Error'' else take 15 (message err))) s)"

definition finally_block :: "overlay \<Rightarrow> overlay" where
  "finally_block s =
     (let s1 = call RecordingStopped (s\<lparr>isProcessing := False\<rparr>);
          s2 = (if streamRef s1
                then s1\<lparr>tracks := map (\<lambda>track. Ended) (tracks s1), streamRef := False\<rparr>
                else s1);
          s3 = (if audioContextRef s2
                then s2\<lparr>context_closed := True, audioContextRef := False\<rparr>
                else s2)
      in s3\<lparr>analyserRef := False, dataArrayRef := False, mediaRecorderRef := False,
            chunksRef := []\<rparr>)"

definition onstop :: "world \<Rightarrow> overlay \<Rightarrow> overlay" where
  "onstop w s =
     (let s0 = setError None (s\<lparr>isProcessing := True\<rparr>)
      in case try_block w s0 of
           (Some err, s1) \<Rightarrow> finally_block (catch_block err s1)
         | (None, s1) \<Rightarrow> finally_block s1)"

text \<open>
  What the handler has to give back when it ends: the stream reference and the state
  of the stream's tracks, the reference to the analysis context and whether the
  context is closed.
\<close>

definition resources :: "overlay \<Rightarrow> bool \<times> track_state list \<times> bool \<times> bool" where
  "resources s = (streamRef s, tracks s, audioContextRef s, context_closed s)"

text \<open>
  A concrete run to evaluate the handler on: a session with AI post-processing enabled,
  whose clip is transcribed as ``open whisper is great'', whose calls to the main process
  all succeed, and whose cleanup request has the given outcome.
\<close>

definition demo_settings :: Settings where
  "demo_settings =
     \<lparr>apiKey = ''gsk_demo'', aiPostProcessing = True, set_removeFillerWords = True,
      set_removeFalseStarts = True, set_fixPunctuation = True, set_fixGrammar = False,
      incognitoMode = False\<rparr>"

definition demo_world :: "chat_outcome \<Rightarrow> world" where
  "demo_world outcome =
     \<lparr>mimeType = ''audio/webm;codecs=opus'',
      getSettings = Inr demo_settings,
      transcribeAudio = (\<lambda>size mime key. Inr ''open whisper is great''),
      create_completion = (\<lambda>key request. outcome),
      addWords = (\<lambda>n. None),
      addToHistory = (\<lambda>r. None),
      typeText = (\<lambda>t. Inr True),
      dateNow = 1700000000000\<rparr>"

definition demo_overlay :: "nat list \<Rightarrow> DictionaryEntry list \<Rightarrow> overlay" where
  "demo_overlay chunks entries =
     \<lparr>isProcessing = False, error = None, chunksRef = chunks, streamRef = True,
      tracks = [Live], audioContextRef = True, context_closed = False, analyserRef = False,
      dataArrayRef = False, mediaRecorderRef = True, dictionaryRef = entries, calls = []\<rparr>"

section \<open>The word counters\<close>











section \<open>Dictionary substitution\<close>








section \<open>Concrete inputs\<close>

text \<open>A decoder that returns the given samples, and the size field a result declares.\<close>

definition decoder_of :: "js_number list \<Rightarrow> byte list \<Rightarrow> js_error + js_number list" where
  "decoder_of samples bytes = Inr samples"

definition header_field :: "js_error + blob \<Rightarrow> nat \<Rightarrow> nat \<Rightarrow> nat option" where
  "header_field result off n =
     (case result of Inl e \<Rightarrow> None | Inr wav \<Rightarrow> Some (le_nat (slice (blob_bytes wav) off n)))"

definition empty_clip :: blob where
  "empty_clip = \<lparr>blob_bytes = [], blob_type = ''audio/webm''\<rparr>"

definition all_flags_off :: "DictionaryEntry list option \<Rightarrow> PostProcessingOptions" where
  "all_flags_off entries =
     \<lparr>removeFillerWords = False, removeFalseStarts = False, fixPunctuation = False,
      fixCapitalization = False, fixGrammar = False, smartFormatting = False,
      dictionary = entries\<rparr>"


section \<open>Properties of the WAV encoder\<close>

lemma length_le_bytes [simp]: "length (le_bytes k v) = k"
  by (induction k arbitrary: v) auto

lemma le_nat_le_bytes: "le_nat (le_bytes k v) = v mod 256 ^ k"
proof (induction k arbitrary: v)
  case 0
  then show ?case by simp
next
  case (Suc k)
  have "unat (of_nat (v mod 256) :: byte) = v mod 256"
    by (simp add: unat_of_nat)
  then show ?case
    using Suc by (simp add: mod_mult2_eq)
qed

lemma write_at_append:
  assumes "off = length pre" and "length bs \<le> m"
  shows "write_at (pre @ replicate m 0) off bs = Inr ((pre @ bs) @ replicate (m - length bs) 0)"
  using assms by (simp add: write_at_def)

lemma writeString_append:
  assumes "off = length pre" and "length s \<le> m"
  shows "writeString (pre @ replicate m 0) off s = Inr ((pre @ ascii s) @ replicate (m - length s) 0)"
  using assms
proof (induction s arbitrary: pre m off)
  case Nil
  then show ?case by (simp add: ascii_def)
next
  case (Cons c cs)
  have w: "setUint8 (pre @ replicate m 0) off (charCodeAt c)
        = Inr ((pre @ [of_nat (charCodeAt c)]) @ replicate (m - 1) 0)"
    using Cons.prems write_at_append [of off pre "le_bytes 1 (charCodeAt c mod 2 ^ 8)" m]
    by (simp add: setUint8_def charCodeAt_def)
  have "writeString ((pre @ [of_nat (charCodeAt c)]) @ replicate (m - 1) 0) (off + 1) cs
        = Inr (((pre @ [of_nat (charCodeAt c)]) @ ascii cs) @ replicate (m - 1 - length cs) 0)"
    using Cons.prems by (intro Cons.IH) auto
  with w show ?case
    by (simp add: bind_res_def ascii_def)
qed

lemma write_samples_append:
  assumes "off = length pre"
  shows "write_samples (pre @ replicate (2 * length xs) 0) off xs
         = Inr (pre @ concat (map sample_bytes xs))"
  using assms
proof (induction xs arbitrary: pre off)
  case Nil
  then show ?case by simp
next
  case (Cons x xs)
  have w: "setInt16 (pre @ replicate (2 * length (x # xs)) 0) off (scale_sample (clamp_sample x))
        = Inr ((pre @ sample_bytes x) @ replicate (2 * length xs) 0)"
    using Cons.prems
      write_at_append [of off pre "sample_bytes x" "2 * length (x # xs)"]
    by (simp add: setInt16_def sample_bytes_def)
  have "write_samples ((pre @ sample_bytes x) @ replicate (2 * length xs) 0) (off + 2) xs
        = Inr ((pre @ sample_bytes x) @ concat (map sample_bytes xs))"
    using Cons.prems by (intro Cons.IH) (simp add: sample_bytes_def)
  with w show ?case
    by (simp add: bind_res_def)
qed


lemma setUint32_append:
  assumes "off = length pre" and "4 \<le> m"
  shows "setUint32 (pre @ replicate m 0) off v
         = Inr ((pre @ le_bytes 4 (v mod 2 ^ 32)) @ replicate (m - 4) 0)"
  using assms write_at_append [of off pre "le_bytes 4 (v mod 2 ^ 32)" m]
  by (simp add: setUint32_def)

lemma setUint16_append:
  assumes "off = length pre" and "2 \<le> m"
  shows "setUint16 (pre @ replicate m 0) off v
         = Inr ((pre @ le_bytes 2 (v mod 2 ^ 16)) @ replicate (m - 2) 0)"
  using assms write_at_append [of off pre "le_bytes 2 (v mod 2 ^ 16)" m]
  by (simp add: setUint16_def)

lemma length_ascii [simp]: "length (ascii s) = length s"
  by (simp add: ascii_def)

lemma write_header_zeros:
  "write_header (replicate (44 + n) 0) len = Inr (header_bytes len @ replicate n 0)"
proof -
  let ?h1 = "ascii ''RIFF''"
  let ?h2 = "?h1 @ le_bytes 4 ((36 + len * 2) mod 2 ^ 32)"
  let ?h3 = "?h2 @ ascii ''WAVE''"
  let ?h4 = "?h3 @ ascii ''fmt ''"
  let ?h5 = "?h4 @ le_bytes 4 16"
  let ?h6 = "?h5 @ le_bytes 2 1"
  let ?h7 = "?h6 @ le_bytes 2 1"
  let ?h8 = "?h7 @ le_bytes 4 16000"
  let ?h9 = "?h8 @ le_bytes 4 32000"
  let ?h10 = "?h9 @ le_bytes 2 2"
  let ?h11 = "?h10 @ le_bytes 2 16"
  let ?h12 = "?h11 @ ascii ''data''"
  let ?h13 = "?h12 @ le_bytes 4 ((len * 2) mod 2 ^ 32)"
  have f1: "writeString (replicate (44 + n) 0) 0 ''RIFF'' = Inr (?h1 @ replicate (40 + n) 0)"
    using writeString_append [of 0 "[]" "''RIFF''" "44 + n"] by simp
  have f2: "setUint32 (?h1 @ replicate (40 + n) 0) 4 (36 + len * 2)
            = Inr (?h2 @ replicate (36 + n) 0)"
    using setUint32_append [of 4 ?h1 "40 + n" "36 + len * 2"] by simp
  have f3: "writeString (?h2 @ replicate (36 + n) 0) 8 ''WAVE'' = Inr (?h3 @ replicate (32 + n) 0)"
    using writeString_append [of 8 ?h2 "''WAVE''" "36 + n"] by simp
  have f4: "writeString (?h3 @ replicate (32 + n) 0) 12 ''fmt '' = Inr (?h4 @ replicate (28 + n) 0)"
    using writeString_append [of 12 ?h3 "''fmt ''" "32 + n"] by simp
  have f5: "setUint32 (?h4 @ replicate (28 + n) 0) 16 16 = Inr (?h5 @ replicate (24 + n) 0)"
    using setUint32_append [of 16 ?h4 "28 + n" 16] by simp
  have f6: "setUint16 (?h5 @ replicate (24 + n) 0) 20 1 = Inr (?h6 @ replicate (22 + n) 0)"
    using setUint16_append [of 20 ?h5 "24 + n" 1] by simp
  have f7: "setUint16 (?h6 @ replicate (22 + n) 0) 22 1 = Inr (?h7 @ replicate (20 + n) 0)"
    using setUint16_append [of 22 ?h6 "22 + n" 1] by simp
  have f8: "setUint32 (?h7 @ replicate (20 + n) 0) 24 16000 = Inr (?h8 @ replicate (16 + n) 0)"
    using setUint32_append [of 24 ?h7 "20 + n" 16000] by simp
  have f9: "setUint32 (?h8 @ replicate (16 + n) 0) 28 (16000 * 1 * 2)
            = Inr (?h9 @ replicate (12 + n) 0)"
    using setUint32_append [of 28 ?h8 "16 + n" "16000 * 1 * 2"] by simp
  have f10: "setUint16 (?h9 @ replicate (12 + n) 0) 32 (1 * 2) = Inr (?h10 @ replicate (10 + n) 0)"
    using setUint16_append [of 32 ?h9 "12 + n" "1 * 2"] by simp
  have f11: "setUint16 (?h10 @ replicate (10 + n) 0) 34 16 = Inr (?h11 @ replicate (8 + n) 0)"
    using setUint16_append [of 34 ?h10 "10 + n" 16] by simp
  have f12: "writeString (?h11 @ replicate (8 + n) 0) 36 ''data'' = Inr (?h12 @ replicate (4 + n) 0)"
    using writeString_append [of 36 ?h11 "''data''" "8 + n"] by simp
  have f13: "setUint32 (?h12 @ replicate (4 + n) 0) 40 (len * 2) = Inr (?h13 @ replicate n 0)"
    using setUint32_append [of 40 ?h12 "4 + n" "len * 2"] by simp
  have "write_header (replicate (44 + n) 0) len = Inr (?h13 @ replicate n 0)"
    unfolding write_header_def Let_def
    by (simp only: bind_res_def f1 f2 f3 f4 f5 f6 f7 f8 f9 f10 f11 f12 f13 sum.case)
  then show ?thesis
    by (simp only: header_bytes_def append_assoc)
qed

lemma convertToWav_bytes:
  assumes "decodeAudioData (blob_bytes b) = Inr samples"
  shows "convertToWav decodeAudioData b
   = Inr \<lparr>blob_bytes = header_bytes (length samples) @ concat (map sample_bytes samples),
          blob_type = ''audio/wav''\<rparr>"
proof -
  let ?n = "length samples"
  have h: "write_header (replicate (44 + ?n * 2) 0) ?n
           = Inr (header_bytes ?n @ replicate (2 * ?n) 0)"
    using write_header_zeros [of "?n * 2" ?n] by (simp add: mult.commute)
  have lh: "length (header_bytes ?n) = 44"
    by (simp add: header_bytes_def)
  have s: "write_samples (header_bytes ?n @ replicate (2 * ?n) 0) 44 samples
           = Inr (header_bytes ?n @ concat (map sample_bytes samples))"
    using write_samples_append [of 44 "header_bytes ?n" samples] lh by simp
  show ?thesis
    unfolding convertToWav_def Let_def
    by (simp only: bind_res_def sum.case assms h s)
qed

lemma length_samples_bytes: "length (concat (map sample_bytes xs)) = 2 * length xs"
  by (induction xs) (simp_all add: sample_bytes_def)

lemma le_nat_sample_bytes:
  "le_nat (sample_bytes x) = unat (ToInt16 (scale_sample (clamp_sample x)))"
proof -
  have "unat (ToInt16 (scale_sample (clamp_sample x))) < 2 ^ 16"
    using unsigned_less [of "ToInt16 (scale_sample (clamp_sample x))", where ?'a = nat] by simp
  then show ?thesis
    by (simp add: sample_bytes_def le_nat_le_bytes)
qed



lemma slice_append_left:
  "off + n \<le> length xs \<Longrightarrow> slice (xs @ ys) off n = slice xs off n"
  by (simp add: slice_def)

lemma header_slices:
  "length (header_bytes len) = 44"
  "slice (header_bytes len) 0 4 = ascii ''RIFF''"
  "slice (header_bytes len) 4 4 = le_bytes 4 ((36 + len * 2) mod 2 ^ 32)"
  "slice (header_bytes len) 8 4 = ascii ''WAVE''"
  "slice (header_bytes len) 12 4 = ascii ''fmt ''"
  "slice (header_bytes len) 16 4 = le_bytes 4 16"
  "slice (header_bytes len) 20 2 = le_bytes 2 1"
  "slice (header_bytes len) 22 2 = le_bytes 2 1"
  "slice (header_bytes len) 24 4 = le_bytes 4 16000"
  "slice (header_bytes len) 28 4 = le_bytes 4 32000"
  "slice (header_bytes len) 32 2 = le_bytes 2 2"
  "slice (header_bytes len) 34 2 = le_bytes 2 16"
  "slice (header_bytes len) 36 4 = ascii ''data''"
  "slice (header_bytes len) 40 4 = le_bytes 4 ((len * 2) mod 2 ^ 32)"
  by (simp_all add: header_bytes_def slice_def)

lemma ascii_tags:
  "ascii ''RIFF'' = [82, 73, 70, 70]"
  "ascii ''WAVE'' = [87, 65, 86, 69]"
  "ascii ''fmt '' = [102, 109, 116, 32]"
  "ascii ''data'' = [100, 97, 116, 97]"
  by (simp_all add: ascii_def charCodeAt_def)

lemma slice_sample_bytes:
  "i < length xs \<Longrightarrow> slice (concat (map sample_bytes xs)) (2 * i) 2 = sample_bytes (xs ! i)"
proof (induction xs arbitrary: i)
  case Nil
  then show ?case by simp
next
  case (Cons x xs)
  have l: "length (sample_bytes x) = 2"
    by (simp add: sample_bytes_def)
  show ?case
  proof (cases i)
    case 0
    then show ?thesis by (simp add: slice_def l)
  next
    case (Suc j)
    with Cons.prems have "j < length xs" by simp
    then have "slice (concat (map sample_bytes xs)) (2 * j) 2 = sample_bytes (xs ! j)"
      by (rule Cons.IH)
    with Suc show ?thesis by (simp add: slice_def l)
  qed
qed

lemma slice_append_right:
  "slice (xs @ ys) (length xs + off) n = slice ys off n"
  by (simp add: slice_def)

text \<open>
  Claim C1. Whenever the clip decodes to \<open>N\<close> samples, \<open>convertToWav\<close> returns a blob
  of type \<open>audio/wav\<close> with exactly \<open>44 + 2 * N\<close> bytes. Bytes 0 to 3, 8 to 11, 12 to
  15 and 36 to 39 of the header are the character codes of RIFF, WAVE, ``fmt '' and data;
  the other fields, all little-endian, are fmt chunk size 16, audio format 1, 1 channel,
  sample rate 16000, byte rate 32000, block align 2 and 16 bits per sample. The two size
  fields are 32 bits wide and hold \<open>36 + 2 * N\<close> and \<open>2 * N\<close> reduced modulo \<open>2^32\<close>:
  these numbers themselves when \<open>36 + 2 * N < 2^32\<close>. After the header, sample \<open>i\<close>
  occupies the two bytes at offset \<open>44 + 2 * i\<close>, low byte first, which hold the 16-bit
  two's complement of its clamped, scaled and truncated value.
\<close>

theorem convertToWav_canonical:
  assumes "decodeAudioData (blob_bytes b) = Inr samples"
  shows "\<exists>wav. convertToWav decodeAudioData b = Inr wav \<and>
     blob_type wav = ''audio/wav'' \<and>
     length (blob_bytes wav) = 44 + 2 * length samples \<and>
     slice (blob_bytes wav) 0 4 = [82, 73, 70, 70] \<and>
     le_nat (slice (blob_bytes wav) 4 4) = (36 + 2 * length samples) mod 2 ^ 32 \<and>
     slice (blob_bytes wav) 8 4 = [87, 65, 86, 69] \<and>
     slice (blob_bytes wav) 12 4 = [102, 109, 116, 32] \<and>
     le_nat (slice (blob_bytes wav) 16 4) = 16 \<and>
     le_nat (slice (blob_bytes wav) 20 2) = 1 \<and>
     le_nat (slice (blob_bytes wav) 22 2) = 1 \<and>
     le_nat (slice (blob_bytes wav) 24 4) = 16000 \<and>
     le_nat (slice (blob_bytes wav) 28 4) = 32000 \<and>
     le_nat (slice (blob_bytes wav) 32 2) = 2 \<and>
     le_nat (slice (blob_bytes wav) 34 2) = 16 \<and>
     slice (blob_bytes wav) 36 4 = [100, 97, 116, 97] \<and>
     le_nat (slice (blob_bytes wav) 40 4) = (2 * length samples) mod 2 ^ 32 \<and>
     (36 + 2 * length samples < 2 ^ 32 \<longrightarrow>
        le_nat (slice (blob_bytes wav) 4 4) = 36 + 2 * length samples \<and>
        le_nat (slice (blob_bytes wav) 40 4) = 2 * length samples) \<and>
     (\<forall>i < length samples.
        le_nat (slice (blob_bytes wav) (44 + 2 * i) 2)
          = unat (ToInt16 (scale_sample (clamp_sample (samples ! i)))))"
proof -
  let ?n = "length samples"
  let ?h = "header_bytes ?n"
  let ?b = "?h @ concat (map sample_bytes samples)"
  have sl: "\<And>off k. off + k \<le> 44 \<Longrightarrow> slice ?b off k = slice ?h off k"
    by (rule slice_append_left) (simp add: header_slices(1))
  have len: "length ?b = 44 + 2 * ?n"
    by (simp add: header_slices(1) length_samples_bytes)
  have fields:
    "slice ?b 0 4 = [82, 73, 70, 70]"
    "le_nat (slice ?b 4 4) = (36 + 2 * ?n) mod 2 ^ 32"
    "slice ?b 8 4 = [87, 65, 86, 69]"
    "slice ?b 12 4 = [102, 109, 116, 32]"
    "le_nat (slice ?b 16 4) = 16"
    "le_nat (slice ?b 20 2) = 1"
    "le_nat (slice ?b 22 2) = 1"
    "le_nat (slice ?b 24 4) = 16000"
    "le_nat (slice ?b 28 4) = 32000"
    "le_nat (slice ?b 32 2) = 2"
    "le_nat (slice ?b 34 2) = 16"
    "slice ?b 36 4 = [100, 97, 116, 97]"
    "le_nat (slice ?b 40 4) = (2 * ?n) mod 2 ^ 32"
    by (simp_all add: sl header_slices le_nat_le_bytes mult.commute ascii_tags)
  have fits: "36 + 2 * ?n < 2 ^ 32 \<longrightarrow>
        le_nat (slice ?b 4 4) = 36 + 2 * ?n \<and> le_nat (slice ?b 40 4) = 2 * ?n"
    using fields(2,13) by simp
  have body: "\<forall>i < ?n. le_nat (slice ?b (44 + 2 * i) 2)
          = unat (ToInt16 (scale_sample (clamp_sample (samples ! i))))"
  proof (intro allI impI)
    fix i assume i: "i < ?n"
    have "slice ?b (44 + 2 * i) 2 = slice (concat (map sample_bytes samples)) (2 * i) 2"
      using slice_append_right [where xs = ?h and off = "2 * i" and n = 2
          and ys = "concat (map sample_bytes samples)"]
      by (simp add: header_slices(1))
    also have "\<dots> = sample_bytes (samples ! i)"
      using i by (rule slice_sample_bytes)
    finally show "le_nat (slice ?b (44 + 2 * i) 2)
          = unat (ToInt16 (scale_sample (clamp_sample (samples ! i))))"
      by (simp add: le_nat_sample_bytes)
  qed
  show ?thesis
    unfolding convertToWav_bytes [of decodeAudioData b samples, OF assms]
    using len fields fits body
    by (intro exI [of _ "\<lparr>blob_bytes = ?b, blob_type = ''audio/wav''\<rparr>"]) simp
qed

theorem convertToWav_canonical_witness:
  "decoder_of [Finite (1 / 2), Finite (- 1), NaN] (blob_bytes empty_clip)
     = Inr [Finite (1 / 2), Finite (- 1), NaN] \<and>
   36 + 2 * length [Finite (1 / 2), Finite (- 1), NaN] < (2 :: nat) ^ 32 \<and>
   (\<exists>wav. convertToWav (decoder_of [Finite (1 / 2), Finite (- 1), NaN]) empty_clip = Inr wav \<and>
      blob_type wav = ''audio/wav'' \<and>
      length (blob_bytes wav) = 50 \<and>
      slice (blob_bytes wav) 0 4 = [82, 73, 70, 70] \<and>
      le_nat (slice (blob_bytes wav) 4 4) = 42 \<and>
      le_nat (slice (blob_bytes wav) 40 4) = 6 \<and>
      le_nat (slice (blob_bytes wav) 46 2) = 32768)"
proof -
  let ?xs = "[Finite (1 / 2), Finite (- 1), NaN]"
  have d: "decoder_of ?xs (blob_bytes empty_clip) = Inr ?xs"
    by (simp add: decoder_of_def)
  have v: "unat (ToInt16 (scale_sample (clamp_sample (Finite (- 1))))) = 32768"
    by (simp add: clamp_sample_def scale_sample_def js_trunc_def)
  obtain wav where w: "convertToWav (decoder_of ?xs) empty_clip = Inr wav"
    "blob_type wav = ''audio/wav''"
    "length (blob_bytes wav) = 44 + 2 * length ?xs"
    "slice (blob_bytes wav) 0 4 = [82, 73, 70, 70]"
    "36 + 2 * length ?xs < 2 ^ 32 \<longrightarrow>
        le_nat (slice (blob_bytes wav) 4 4) = 36 + 2 * length ?xs \<and>
        le_nat (slice (blob_bytes wav) 40 4) = 2 * length ?xs"
    "\<forall>i < length ?xs. le_nat (slice (blob_bytes wav) (44 + 2 * i) 2)
          = unat (ToInt16 (scale_sample (clamp_sample (?xs ! i))))"
    using convertToWav_canonical [of "decoder_of ?xs" empty_clip ?xs, OF d] by blast
  have "(1 :: nat) < length ?xs" by simp
  with w(6) have "le_nat (slice (blob_bytes wav) (44 + 2 * 1) 2)
          = unat (ToInt16 (scale_sample (clamp_sample (?xs ! 1))))"
    by blast
  then have s: "le_nat (slice (blob_bytes wav) 46 2) = 32768"
    by (simp add: v)
  from w(3) have l: "length (blob_bytes wav) = 50" by simp
  from w(5) have f: "le_nat (slice (blob_bytes wav) 4 4) = 42"
    "le_nat (slice (blob_bytes wav) 40 4) = 6" by simp_all
  have b: "36 + 2 * length ?xs < (2 :: nat) ^ 32" by simp
  from w(1,2) l w(4) f s
  have "\<exists>wav. convertToWav (decoder_of ?xs) empty_clip = Inr wav \<and>
      blob_type wav = ''audio/wav'' \<and>
      length (blob_bytes wav) = 50 \<and>
      slice (blob_bytes wav) 0 4 = [82, 73, 70, 70] \<and>
      le_nat (slice (blob_bytes wav) 4 4) = 42 \<and>
      le_nat (slice (blob_bytes wav) 40 4) = 6 \<and>
      le_nat (slice (blob_bytes wav) 46 2) = 32768"
    by blast
  with d b show ?thesis by (intro conjI)
qed

lemma riff_size_wraps:
  assumes "decodeAudioData (blob_bytes b) = Inr samples" and "length samples = 2147483630"
  shows "header_field (convertToWav decodeAudioData b) 4 4 = Some 0"
proof -
  let ?b = "header_bytes (length samples) @ concat (map sample_bytes samples)"
  have "slice ?b 4 4 = slice (header_bytes (length samples)) 4 4"
    by (rule slice_append_left) (simp add: header_slices(1))
  also have "\<dots> = le_bytes 4 ((36 + length samples * 2) mod 2 ^ 32)"
    by (rule header_slices(3))
  also have "\<dots> = le_bytes 4 0"
    by (simp add: assms(2))
  finally have "le_nat (slice ?b 4 4) = 0"
    by (simp add: le_nat_le_bytes)
  then show ?thesis
    by (simp add: convertToWav_bytes [of decodeAudioData b samples, OF assms(1)] header_field_def)
qed

text \<open>
  Without the bound the RIFF size field does not hold \<open>36 + 2 * N\<close>. A clip that
  decodes to 2147483630 samples has \<open>36 + 2 * N = 2^32\<close>, and the field, written by
  \<^verbatim>\<open>setUint32\<close>, holds 0.
\<close>

theorem convertToWav_size_counterexample:
  "header_field (convertToWav (decoder_of (replicate 2147483630 (Finite 0))) empty_clip) 4 4
     = Some 0 \<and>
   36 + 2 * length (replicate 2147483630 (Finite 0)) = (4294967296 :: nat)"
proof -
  let ?xs = "replicate 2147483630 (Finite 0)"
  have n: "length ?xs = 2147483630"
    by (simp only: length_replicate)
  have d: "decoder_of ?xs (blob_bytes empty_clip) = Inr ?xs"
    by (simp only: decoder_of_def)
  have "header_field (convertToWav (decoder_of ?xs) empty_clip) 4 4 = Some 0"
    using d n by (rule riff_size_wraps)
  moreover have "36 + 2 * length ?xs = (4294967296 :: nat)"
    by (simp only: n)
  ultimately show ?thesis by (rule conjI)
qed




section \<open>Properties of the correction detector\<close>

lemma tokenize_Nil: "tokenize [] = []"
  by (simp add: tokenize_def split_ws.simps)

lemma differing_same: "filter (\<lambda>(a, b). toLowerCase a \<noteq> toLowerCase b) (zip ws ws) = []"
  by (induction ws) simp_all

lemma differences_map:
  "differences ow ew = map (\<lambda>(a, b). \<lparr>original = a, corrected = b\<rparr>)
     (filter (\<lambda>(a, b). toLowerCase a \<noteq> toLowerCase b) (zip ow ew))"
  by (simp add: differences_def)

lemma alreadyExists_iff:
  "alreadyExists existingDictionary w
   = (\<exists>entry \<in> set existingDictionary. toLowerCase (de_original entry) = toLowerCase w)"
  by (simp add: alreadyExists_def list_ex_iff)

lemma phrase_rule_eq:
  assumes "\<bar>int (length ow) - int (length ew)\<bar> \<le> 2"
  shows "phrase_rule ow ew existingDictionary =
     (let removed = filter (\<lambda>w. toLowerCase w \<notin> toLowerCase ` set ew) ow;
          added = filter (\<lambda>w. toLowerCase w \<notin> toLowerCase ` set ow) ew
      in if length removed \<ge> 1 \<and> length added = 1
            \<and> toLowerCase (js_join removed) \<noteq> toLowerCase (hd added)
            \<and> \<not> (\<exists>entry \<in> set existingDictionary.
                   toLowerCase (de_original entry) = toLowerCase (js_join removed))
         then Some \<lparr>original = js_join removed, corrected = hd added\<rparr>
         else None)"
proof -
  let ?removed = "filter (\<lambda>w. toLowerCase w \<notin> toLowerCase ` set ew) ow"
  let ?added = "filter (\<lambda>w. toLowerCase w \<notin> toLowerCase ` set ow) ew"
  have rm: "removed_words ow ew = ?removed" and ad: "added_words ow ew = ?added"
    by (simp_all add: removed_words_def added_words_def)
  show ?thesis
  proof (cases ?added)
    case Nil
    then show ?thesis
      using assms by (simp add: phrase_rule_def ad rm)
  next
    case (Cons a as)
    show ?thesis
    proof (cases as)
      case Nil
      with Cons have "?added = [a]" by simp
      then show ?thesis
        using assms by (simp add: phrase_rule_def ad rm alreadyExists_iff Let_def)
    next
      case (Cons a' as')
      with \<open>?added = a # as\<close> have "?added = a # a' # as'" by simp
      then show ?thesis
        using assms by (simp add: phrase_rule_def ad rm)
    qed
  qed
qed

lemma filter_fst_zip:
  "length xs = length ys \<Longrightarrow> filter R xs = map fst (filter (\<lambda>(a, b). R a) (zip xs ys))"
  by (induction xs ys rule: list_induct2) simp_all

lemma one_difference_removed:
  assumes "length ow = length ew"
    and "filter (\<lambda>(a, b). toLowerCase a \<noteq> toLowerCase b) (zip ow ew) = [(a, b)]"
  shows "filter (\<lambda>w. toLowerCase w \<notin> toLowerCase ` set ew) ow = [] \<or>
         filter (\<lambda>w. toLowerCase w \<notin> toLowerCase ` set ew) ow = [a]"
proof -
  let ?P = "\<lambda>(a, b). toLowerCase a \<noteq> toLowerCase b"
  let ?Q = "\<lambda>(a :: string, b :: string). toLowerCase a \<notin> toLowerCase ` set ew"
  have imp: "\<And>z. z \<in> set (zip ow ew) \<Longrightarrow> ?Q z \<Longrightarrow> ?P z"
    by (auto dest: set_zip_rightD)
  have "filter ?Q (zip ow ew) = filter ?Q (filter ?P (zip ow ew))"
    unfolding filter_filter by (rule filter_cong) (use imp in auto)
  also have "\<dots> = filter ?Q [(a, b)]"
    by (simp only: assms(2))
  finally have "filter ?Q (zip ow ew) = [] \<or> filter ?Q (zip ow ew) = [(a, b)]"
    by simp
  moreover have "filter (\<lambda>w. toLowerCase w \<notin> toLowerCase ` set ew) ow
      = map fst (filter ?Q (zip ow ew))"
    using assms(1) by (rule filter_fst_zip)
  ultimately show ?thesis by auto
qed

lemma detect_cases:
  "detectWordCorrection originalText editedText existingDictionary =
     (if originalText = [] \<or> editedText = [] \<or> originalText = editedText then None
      else case single_word_rule (tokenize originalText) (tokenize editedText) existingDictionary of
             Some diff \<Rightarrow> Some diff
           | None \<Rightarrow> phrase_rule (tokenize originalText) (tokenize editedText) existingDictionary)"
  by (simp add: detectWordCorrection_def Let_def)

lemma trivial_texts_no_difference:
  assumes "originalText = [] \<or> editedText = [] \<or> originalText = editedText"
  shows "filter (\<lambda>(a, b). toLowerCase a \<noteq> toLowerCase b)
           (zip (tokenize originalText) (tokenize editedText)) = []"
  using assms by (auto simp: tokenize_Nil differing_same)

lemma trivial_texts_no_phrase:
  assumes "originalText = [] \<or> editedText = [] \<or> originalText = editedText"
  shows "filter (\<lambda>w. toLowerCase w \<notin> toLowerCase ` set (tokenize editedText))
           (tokenize originalText) = [] \<or>
         filter (\<lambda>w. toLowerCase w \<notin> toLowerCase ` set (tokenize originalText))
           (tokenize editedText) = []"
  using assms by (auto simp: tokenize_Nil filter_empty_conv)

lemma single_word_rule_eq:
  "single_word_rule ow ew existingDictionary =
     (let differing = filter (\<lambda>(a, b). toLowerCase a \<noteq> toLowerCase b) (zip ow ew)
      in if length ow = length ew \<and> length differing = 1 \<and>
            \<not> (\<exists>entry \<in> set existingDictionary.
                  toLowerCase (de_original entry) = toLowerCase (fst (hd differing)))
         then Some \<lparr>original = fst (hd differing), corrected = snd (hd differing)\<rparr>
         else None)"
proof -
  let ?differing = "filter (\<lambda>(a, b). toLowerCase a \<noteq> toLowerCase b) (zip ow ew)"
  show ?thesis
  proof (cases ?differing)
    case Nil
    then show ?thesis
      by (simp add: single_word_rule_def differences_map)
  next
    case (Cons z zs)
    obtain a b where z: "z = (a, b)" by (cases z)
    show ?thesis
    proof (cases zs)
      case Nil
      with Cons z show ?thesis
        by (auto simp add: single_word_rule_def differences_map alreadyExists_iff Let_def)
    next
      case (Cons z' zs')
      with \<open>?differing = z # zs\<close> show ?thesis
        by (simp add: single_word_rule_def differences_map)
    qed
  qed
qed

text \<open>
  Claim C5. For texts with equally many tokens the answer depends on the number of
  indices at which the tokens differ, compared after \<^verbatim>\<open>toLowerCase\<close>. With no such
  index there is no suggestion. With exactly one, the suggestion is the pair of the
  original and the edited token at that index, unless a dictionary entry already has
  that original token as its original, compared case-insensitively; then there is no
  suggestion. With more than one, the detector does not stop: the block for counts that
  differ by at most two also admits a difference of zero, and its answer is returned.
  That answer is the removed tokens joined by single spaces together with the single
  added token, under the conditions of that block, and no suggestion otherwise.
\<close>

theorem detect_equal_counts:
  assumes "length (tokenize originalText) = length (tokenize editedText)"
  shows "detectWordCorrection originalText editedText existingDictionary =
     (let originalWords = tokenize originalText;
          editedWords = tokenize editedText;
          differing = filter (\<lambda>(a, b). toLowerCase a \<noteq> toLowerCase b)
                        (zip originalWords editedWords);
          removed = filter (\<lambda>w. toLowerCase w \<notin> toLowerCase ` set editedWords) originalWords;
          added = filter (\<lambda>w. toLowerCase w \<notin> toLowerCase ` set originalWords) editedWords
      in if length differing = 0 then None
         else if length differing = 1
         then (if \<exists>entry \<in> set existingDictionary.
                    toLowerCase (de_original entry) = toLowerCase (fst (hd differing))
               then None
               else Some \<lparr>original = fst (hd differing), corrected = snd (hd differing)\<rparr>)
         else if length removed \<ge> 1 \<and> length added = 1
            \<and> toLowerCase (js_join removed) \<noteq> toLowerCase (hd added)
            \<and> \<not> (\<exists>entry \<in> set existingDictionary.
                   toLowerCase (de_original entry) = toLowerCase (js_join removed))
         then Some \<lparr>original = js_join removed, corrected = hd added\<rparr>
         else None)
   \<and> toLowerCase ''The CAT sat'' = ''the cat sat''"
proof -
  let ?ow = "tokenize originalText" and ?ew = "tokenize editedText"
  let ?differing = "filter (\<lambda>(a, b). toLowerCase a \<noteq> toLowerCase b) (zip ?ow ?ew)"
  let ?removed = "filter (\<lambda>w. toLowerCase w \<notin> toLowerCase ` set ?ew) ?ow"
  let ?added = "filter (\<lambda>w. toLowerCase w \<notin> toLowerCase ` set ?ow) ?ew"
  let ?phrase = "if length ?removed \<ge> 1 \<and> length ?added = 1
            \<and> toLowerCase (js_join ?removed) \<noteq> toLowerCase (hd ?added)
            \<and> \<not> (\<exists>entry \<in> set existingDictionary.
                   toLowerCase (de_original entry) = toLowerCase (js_join ?removed))
         then Some \<lparr>original = js_join ?removed, corrected = hd ?added\<rparr>
         else None"
  let ?triv = "originalText = [] \<or> editedText = [] \<or> originalText = editedText"
  have ph: "phrase_rule ?ow ?ew existingDictionary = ?phrase"
    using phrase_rule_eq [of ?ow ?ew existingDictionary] assms by (simp add: Let_def)
  have triv_phrase: "?triv \<Longrightarrow> ?phrase = None"
    using trivial_texts_no_phrase [of originalText editedText] by auto
  have main: "detectWordCorrection originalText editedText existingDictionary =
      (if length ?differing = 0 then None
       else if length ?differing = 1
       then (if \<exists>entry \<in> set existingDictionary.
                  toLowerCase (de_original entry) = toLowerCase (fst (hd ?differing))
             then None
             else Some \<lparr>original = fst (hd ?differing), corrected = snd (hd ?differing)\<rparr>)
       else ?phrase)"
  proof (cases ?differing)
    case Nil
    then have d: "differences ?ow ?ew = []"
      by (simp add: differences_map)
    have "single_word_rule ?ow ?ew existingDictionary = None"
      by (simp add: single_word_rule_def d)
    moreover have "?added = []"
    proof -
      have "\<forall>(a, b) \<in> set (zip ?ow ?ew). toLowerCase a = toLowerCase b"
        using Nil by (auto simp: filter_empty_conv)
      then have "map toLowerCase ?ow = map toLowerCase ?ew"
        using assms by (auto simp: list_eq_iff_nth_eq set_zip)
      then show ?thesis
        by (auto simp: filter_empty_conv dest!: arg_cong [where f = set])
    qed
    ultimately show ?thesis
      using Nil by (simp add: detect_cases ph)
  next
    case (Cons z zs)
    obtain a b where z: "z = (a, b)" by (cases z)
    have nontriv: "\<not> ?triv"
      using trivial_texts_no_difference [of originalText editedText] Cons by auto
    show ?thesis
    proof (cases zs)
      case Nil
      with Cons z have one: "?differing = [(a, b)]" by simp
      then have d: "differences ?ow ?ew = [\<lparr>original = a, corrected = b\<rparr>]"
        by (simp add: differences_map)
      show ?thesis
      proof (cases "alreadyExists existingDictionary a")
        case False
        then show ?thesis
          using nontriv assms one
          by (simp add: detect_cases single_word_rule_def d alreadyExists_iff)
      next
        case True
        have s: "single_word_rule ?ow ?ew existingDictionary = None"
          using True by (simp add: single_word_rule_def d)
        have "?removed = [] \<or> ?removed = [a]"
          using assms one by (rule one_difference_removed)
        then have "?phrase = None"
          using True by (auto simp: alreadyExists_iff)
        then show ?thesis
          using nontriv one True by (simp add: detect_cases s ph alreadyExists_iff)
      qed
    next
      case (Cons z' zs')
      with \<open>?differing = z # zs\<close> have many: "?differing = z # z' # zs'" by simp
      then have "\<exists>x y ys. differences ?ow ?ew = x # y # ys"
        by (simp add: differences_map)
      then have "single_word_rule ?ow ?ew existingDictionary = None"
        by (auto simp: single_word_rule_def)
      then show ?thesis
        using nontriv many by (simp add: detect_cases ph)
    qed
  qed
  have lower: "toLowerCase ''The CAT sat'' = ''the cat sat''"
    by code_simp
  from main lower show ?thesis
    unfolding Let_def by (rule conjI)
qed

theorem detect_equal_counts_witness:
  "length (tokenize ''the cat sat'') = length (tokenize ''the Dog sat'') \<and>
   detectWordCorrection ''the cat sat'' ''the Dog sat'' []
     = Some \<lparr>original = ''cat'', corrected = ''Dog''\<rparr>"
proof -
  have h: "length (tokenize ''the cat sat'') = length (tokenize ''the Dog sat'')"
    by code_simp
  have r: "(let originalWords = tokenize ''the cat sat'';
          editedWords = tokenize ''the Dog sat'';
          differing = filter (\<lambda>(a, b). toLowerCase a \<noteq> toLowerCase b)
                        (zip originalWords editedWords);
          removed = filter (\<lambda>w. toLowerCase w \<notin> toLowerCase ` set editedWords) originalWords;
          added = filter (\<lambda>w. toLowerCase w \<notin> toLowerCase ` set originalWords) editedWords
      in if length differing = 0 then None
         else if length differing = 1
         then (if \<exists>entry \<in> set ([] :: DictionaryEntry list).
                    toLowerCase (de_original entry) = toLowerCase (fst (hd differing))
               then None
               else Some \<lparr>original = fst (hd differing), corrected = snd (hd differing)\<rparr>)
         else if length removed \<ge> 1 \<and> length added = 1
            \<and> toLowerCase (js_join removed) \<noteq> toLowerCase (hd added)
            \<and> \<not> (\<exists>entry \<in> set ([] :: DictionaryEntry list).
                   toLowerCase (de_original entry) = toLowerCase (js_join removed))
         then Some \<lparr>original = js_join removed, corrected = hd added\<rparr>
         else None) = Some \<lparr>original = ''cat'', corrected = ''Dog''\<rparr>"
    by code_simp
  have "detectWordCorrection ''the cat sat'' ''the Dog sat'' []
     = Some \<lparr>original = ''cat'', corrected = ''Dog''\<rparr>"
    using detect_equal_counts [OF h, of "[]", THEN conjunct1] r by (rule trans)
  with h show ?thesis by (rule conjI)
qed

text \<open>
  An equal-count edit with more than one differing index that is answered with a
  suggestion: ``send it to john'' edited into ``send to john smith'' keeps four tokens
  and differs at three indices; the detector proposes ``smith'' for ``it''.
\<close>

theorem detect_equal_counts_fallthrough:
  "length (tokenize ''send it to john'') = length (tokenize ''send to john smith'') \<and>
   length (differences (tokenize ''send it to john'') (tokenize ''send to john smith'')) = 3 \<and>
   detectWordCorrection ''send it to john'' ''send to john smith'' []
     = Some \<lparr>original = ''it'', corrected = ''smith''\<rparr>"
  by code_simp

text \<open>
  Claim C6. Take two texts whose token counts differ by at most two and for which the
  equal-count rule of the first block gives no suggestion: the counts differ, or the
  number of differing indices is not one, or a dictionary entry already has the
  differing token as its original. Then the detector proposes a correction exactly when
  at least one token of the original is absent, case-insensitively, from the edited
  text, exactly one token of the edited text is absent from the original, the removed
  tokens joined by single spaces differ case-insensitively from the added token, and no
  dictionary entry has that phrase as its original, compared case-insensitively. The
  proposal is the phrase and the added token. In particular ``tally dot io'' edited
  into ``tallie.io'' yields that pair.
\<close>

theorem detect_phrase_correction:
  assumes "\<bar>int (length (tokenize originalText)) - int (length (tokenize editedText))\<bar> \<le> 2"
    and "\<not> (length (tokenize originalText) = length (tokenize editedText) \<and>
            length (filter (\<lambda>(a, b). toLowerCase a \<noteq> toLowerCase b)
                      (zip (tokenize originalText) (tokenize editedText))) = 1 \<and>
            \<not> (\<exists>entry \<in> set existingDictionary.
                  toLowerCase (de_original entry) =
                  toLowerCase (fst (hd (filter (\<lambda>(a, b). toLowerCase a \<noteq> toLowerCase b)
                      (zip (tokenize originalText) (tokenize editedText)))))))"
  shows "detectWordCorrection originalText editedText existingDictionary =
     (let originalWords = tokenize originalText;
          editedWords = tokenize editedText;
          removed = filter (\<lambda>w. toLowerCase w \<notin> toLowerCase ` set editedWords) originalWords;
          added = filter (\<lambda>w. toLowerCase w \<notin> toLowerCase ` set originalWords) editedWords
      in if length removed \<ge> 1 \<and> length added = 1
            \<and> toLowerCase (js_join removed) \<noteq> toLowerCase (hd added)
            \<and> \<not> (\<exists>entry \<in> set existingDictionary.
                   toLowerCase (de_original entry) = toLowerCase (js_join removed))
         then Some \<lparr>original = js_join removed, corrected = hd added\<rparr>
         else None)
   \<and> detectWordCorrection ''tally dot io'' ''tallie.io'' []
       = Some \<lparr>original = ''tally dot io'', corrected = ''tallie.io''\<rparr>
   \<and> toLowerCase ''Tally Dot IO'' = ''tally dot io''"
proof -
  let ?ow = "tokenize originalText" and ?ew = "tokenize editedText"
  let ?removed = "filter (\<lambda>w. toLowerCase w \<notin> toLowerCase ` set ?ew) ?ow"
  let ?added = "filter (\<lambda>w. toLowerCase w \<notin> toLowerCase ` set ?ow) ?ew"
  let ?rhs = "if length ?removed \<ge> 1 \<and> length ?added = 1
            \<and> toLowerCase (js_join ?removed) \<noteq> toLowerCase (hd ?added)
            \<and> \<not> (\<exists>entry \<in> set existingDictionary.
                   toLowerCase (de_original entry) = toLowerCase (js_join ?removed))
         then Some \<lparr>original = js_join ?removed, corrected = hd ?added\<rparr>
         else None"
  have single: "single_word_rule ?ow ?ew existingDictionary = None"
    using assms(2) by (simp add: single_word_rule_eq Let_def)
  have phrase: "phrase_rule ?ow ?ew existingDictionary = ?rhs"
    using phrase_rule_eq [OF assms(1), of existingDictionary] by (simp add: Let_def)
  have general: "detectWordCorrection originalText editedText existingDictionary = ?rhs"
  proof (cases "originalText = [] \<or> editedText = [] \<or> originalText = editedText")
    case True
    then have "?rhs = None"
      using trivial_texts_no_phrase [of originalText editedText] by auto
    with True show ?thesis
      by (simp add: detect_cases)
  next
    case False
    then show ?thesis
      by (simp add: detect_cases single phrase)
  qed
  have example: "detectWordCorrection ''tally dot io'' ''tallie.io'' []
       = Some \<lparr>original = ''tally dot io'', corrected = ''tallie.io''\<rparr>"
    by code_simp
  have lower: "toLowerCase ''Tally Dot IO'' = ''tally dot io''"
    by code_simp
  from general example lower show ?thesis
    unfolding Let_def by (intro conjI)
qed

theorem detect_phrase_correction_witness:
  "\<bar>int (length (tokenize ''send it to john'')) - int (length (tokenize ''send to john smith''))\<bar> \<le> 2 \<and>
   length (filter (\<lambda>(a, b). toLowerCase a \<noteq> toLowerCase b)
      (zip (tokenize ''send it to john'') (tokenize ''send to john smith''))) = 3 \<and>
   detectWordCorrection ''send it to john'' ''send to john smith'' []
     = Some \<lparr>original = ''it'', corrected = ''smith''\<rparr>"
proof -
  let ?a = "''send it to john''" and ?b = "''send to john smith''"
  have h1: "\<bar>int (length (tokenize ?a)) - int (length (tokenize ?b))\<bar> \<le> 2"
    by code_simp
  have n: "length (filter (\<lambda>(a, b). toLowerCase a \<noteq> toLowerCase b)
      (zip (tokenize ?a) (tokenize ?b))) = 3"
    by code_simp
  have h2: "\<not> (length (tokenize ?a) = length (tokenize ?b) \<and>
            length (filter (\<lambda>(a, b). toLowerCase a \<noteq> toLowerCase b)
                      (zip (tokenize ?a) (tokenize ?b))) = 1 \<and>
            \<not> (\<exists>entry \<in> set ([] :: DictionaryEntry list).
                  toLowerCase (de_original entry) =
                  toLowerCase (fst (hd (filter (\<lambda>(a, b). toLowerCase a \<noteq> toLowerCase b)
                      (zip (tokenize ?a) (tokenize ?b)))))))"
    by (simp only: n) simp
  have r: "(let originalWords = tokenize ?a;
          editedWords = tokenize ?b;
          removed = filter (\<lambda>w. toLowerCase w \<notin> toLowerCase ` set editedWords) originalWords;
          added = filter (\<lambda>w. toLowerCase w \<notin> toLowerCase ` set originalWords) editedWords
      in if length removed \<ge> 1 \<and> length added = 1
            \<and> toLowerCase (js_join removed) \<noteq> toLowerCase (hd added)
            \<and> \<not> (\<exists>entry \<in> set ([] :: DictionaryEntry list).
                   toLowerCase (de_original entry) = toLowerCase (js_join removed))
         then Some \<lparr>original = js_join removed, corrected = hd added\<rparr>
         else None) = Some \<lparr>original = ''it'', corrected = ''smith''\<rparr>"
    by code_simp
  have "detectWordCorrection ?a ?b [] = Some \<lparr>original = ''it'', corrected = ''smith''\<rparr>"
    using detect_phrase_correction [OF h1 h2, THEN conjunct1] r by (rule trans)
  with h1 n show ?thesis by (intro conjI)
qed

text \<open>
  Without the condition on the first block the statement fails for equal counts, which
  also differ by at most two. In the edit of ``their car is over their'' into ``their
  car is over there'' no token of the original is absent from the edited text, and the
  detector still proposes ``there'' for ``their'': the first block answers.
\<close>

theorem detect_phrase_equal_counts_counterexample:
  "\<bar>int (length (tokenize ''their car is over their''))
      - int (length (tokenize ''their car is over there''))\<bar> \<le> 2 \<and>
   removed_words (tokenize ''their car is over their'') (tokenize ''their car is over there'') = [] \<and>
   detectWordCorrection ''their car is over their'' ''their car is over there'' []
     = Some \<lparr>original = ''their'', corrected = ''there''\<rparr>"
  by code_simp

section \<open>Properties of post-processing\<close>

lemma postProcess_failed:
  assumes "cleanup_failed (create key (cleanup_request t options))"
  shows "fst (postProcessTranscription t key options create) = t"
  using assms
  by (cases "create key (cleanup_request t options)")
     (auto simp: postProcessTranscription_def Let_def split: option.splits)

lemma postProcess_requests:
  "snd (postProcessTranscription t key options create)
   = (if some_enabled options then [cleanup_request t options] else [])"
  by (cases "create key (cleanup_request t options)")
     (auto simp: postProcessTranscription_def Let_def split: option.splits)

lemma some_enabled_overlay: "some_enabled (overlay_options settings entries)"
  by (simp add: some_enabled_def object_values_def overlay_options_def)

lemma post_process_stage_failed:
  assumes "aiPostProcessing settings" and "js_trim t \<noteq> []"
    and "cleanup_failed (create_completion w (apiKey settings)
           (cleanup_request t (overlay_options settings (dictionaryRef s))))"
    and "dictionaryRef s' = dictionaryRef s"
  shows "post_process_stage w settings t s'
     = (t, s'\<lparr>calls := calls s' @ [ChatCompletion (cleanup_request t (overlay_options settings (dictionaryRef s)))]\<rparr>)"
proof -
  let ?p = "postProcessTranscription t (apiKey settings) (overlay_options settings (dictionaryRef s))
              (create_completion w)"
  have "fst ?p = t"
    using assms(3) by (rule postProcess_failed)
  moreover have "snd ?p = [cleanup_request t (overlay_options settings (dictionaryRef s))]"
    by (simp add: postProcess_requests some_enabled_overlay)
  ultimately have "?p = (t, [cleanup_request t (overlay_options settings (dictionaryRef s))])"
    by (simp add: prod_eq_iff)
  then show ?thesis
    using assms(1,2,4)
    by (simp add: post_process_stage_def)
qed

text \<open>
  Claim C10, for an options object that has the six flags as its only truthy-capable
  properties. When all six flags are false and the object has no \<^verbatim>\<open>dictionary\<close>
  property, \<open>postProcessTranscription\<close> returns the input text unchanged and issues
  no request.
\<close>

theorem postProcess_all_disabled:
  assumes "\<not> removeFillerWords options" and "\<not> removeFalseStarts options"
    and "\<not> fixPunctuation options" and "\<not> fixCapitalization options"
    and "\<not> fixGrammar options" and "\<not> smartFormatting options"
    and "dictionary options = None"
  shows "postProcessTranscription t key options create = (t, [])"
  using assms
  by (simp add: postProcessTranscription_def some_enabled_def object_values_def)

theorem postProcess_all_disabled_witness:
  "\<not> removeFillerWords (all_flags_off None) \<and> \<not> removeFalseStarts (all_flags_off None) \<and>
   \<not> fixPunctuation (all_flags_off None) \<and> \<not> fixCapitalization (all_flags_off None) \<and>
   \<not> fixGrammar (all_flags_off None) \<and> \<not> smartFormatting (all_flags_off None) \<and>
   dictionary (all_flags_off None) = None \<and>
   postProcessTranscription ''um hello'' ''gsk_demo'' (all_flags_off None)
     (create_completion (demo_world (ChatContent (Some ''Hello.'')))) = (''um hello'', [])"
  using postProcess_all_disabled [of "all_flags_off None" "''um hello''" "''gsk_demo''"
      "create_completion (demo_world (ChatContent (Some ''Hello.'')))"]
  by (simp add: all_flags_off_def)

text \<open>
  With the six flags false and the \<^verbatim>\<open>dictionary\<close> property the callers add, even an
  empty array, \<^verbatim>\<open>Object.values(options).some(v => v)\<close> is true: the request is
  issued, with an empty list of instructions, and its content replaces the text.
\<close>

theorem postProcess_all_disabled_counterexample:
  "\<not> removeFillerWords (all_flags_off (Some [])) \<and>
   \<not> removeFalseStarts (all_flags_off (Some [])) \<and>
   \<not> fixPunctuation (all_flags_off (Some [])) \<and>
   \<not> fixCapitalization (all_flags_off (Some [])) \<and>
   \<not> fixGrammar (all_flags_off (Some [])) \<and>
   \<not> smartFormatting (all_flags_off (Some [])) \<and>
   postProcessTranscription ''um hello'' ''gsk_demo'' (all_flags_off (Some []))
     (create_completion (demo_world (ChatContent (Some ''Hello.''))))
   = (''Hello.'',
      [\<lparr>req_model = ''llama-3.3-70b-versatile'', req_instructions = [],
        req_text = ''um hello'', req_max_tokens = 1024\<rparr>])"
proof -
  have "js_trim ''Hello.'' = ''Hello.''"
    by code_simp
  then show ?thesis
    by (simp add: postProcessTranscription_def some_enabled_def object_values_def
        all_flags_off_def demo_world_def cleanup_request_def instructions_def)
qed


section \<open>Properties of the overlay's stop handler\<close>

lemma js_trim_hd:
  assumes "js_trim t \<noteq> []"
  shows "\<not> is_space (hd (js_trim t))"
proof -
  let ?d = "dropWhile is_space t"
  have d: "?d = js_trim t @ rev (takeWhile is_space (rev ?d))"
    unfolding js_trim_def
    by (metis rev_append rev_rev_ident takeWhile_dropWhile_id)
  have "?d \<noteq> []"
  proof
    assume e: "?d = []"
    have "js_trim t = []" unfolding js_trim_def e by simp
    with assms show False by simp
  qed
  then have "\<not> is_space (hd ?d)"
    by (rule hd_dropWhile)
  moreover have "hd ?d = hd (js_trim t)"
    using assms by (subst d) simp
  ultimately show ?thesis by simp
qed

lemma tokenize_nonempty:
  assumes "x \<noteq> []" and "\<not> is_space (hd x)"
  shows "tokenize x \<noteq> []"
proof -
  from assms obtain c cs where x: "x = c # cs" and c: "\<not> is_space c"
    by (cases x) auto
  have "takeWhile (\<lambda>c. \<not> is_space c) x \<noteq> []"
    using x c by simp
  moreover have "takeWhile (\<lambda>c. \<not> is_space c) x \<in> set (split_ws x)"
    by (subst split_ws.simps) (simp add: Let_def)
  ultimately show ?thesis
    by (auto simp: tokenize_def filter_empty_conv)
qed

lemma wordCount_positive:
  "js_trim t \<noteq> [] \<Longrightarrow> 0 < length (tokenize (js_trim t))"
  using tokenize_nonempty [of "js_trim t"] js_trim_hd [of t] by simp

lemma try_block_transcribed:
  assumes "chunksRef s \<noteq> []" and "100 \<le> sum_list (chunksRef s)"
    and "getSettings w = Inr settings" and "apiKey settings \<noteq> []"
    and "transcribeAudio w (sum_list (chunksRef s)) (mimeType w) (apiKey settings) = Inr t"
  shows "try_block w s =
     (let (t', s3) = post_process_stage w settings t
              (s\<lparr>calls := calls s @ [GetSettings,
                   TranscribeAudio (sum_list (chunksRef s)) (mimeType w) (apiKey settings)]\<rparr>)
      in deliver w settings t' s3)"
  using assms by (simp add: try_block_def call_def Let_def)

lemma deliver_success:
  assumes "js_trim t \<noteq> []"
    and "addWords w (length (tokenize (js_trim t))) = None"
    and "\<And>r. addToHistory w r = None"
    and "typeText w t = Inr pasteSuccess"
  shows "deliver w settings t s =
     (None, s\<lparr>calls := calls s @ [AddWords (length (tokenize (js_trim t)))] @
          (if incognitoMode settings then []
           else [AddToHistory \<lparr>tr_id = show_nat (dateNow w), tr_text = js_trim t,
                   tr_timestamp = dateNow w,
                   tr_wordCount = length (tokenize (js_trim t))\<rparr>]) @
          [TypeText t]\<rparr>)"
  using assms wordCount_positive [OF assms(1)]
  by (simp add: deliver_def count_words_def call_def Let_def)


lemma resources_setError [simp]: "resources (setError e s) = resources s"
  by (simp add: resources_def setError_def)

lemma resources_call [simp]: "resources (call c s) = resources s"
  by (simp add: resources_def call_def)






lemma onstop_no_audio:
  assumes "chunksRef s = []"
  shows "error (onstop w s) = Some ''No audio data c''"
    and "calls (onstop w s) = calls s @ [ClearErrorAfter 3000, RecordingStopped]"
  using assms
  by (simp_all add: onstop_def try_block_def catch_block_def finally_block_def setError_def
      call_def Let_def)

lemma onstop_too_short:
  assumes "chunksRef s \<noteq> []" and "sum_list (chunksRef s) < 100"
  shows "error (onstop w s) = Some ''Audio too short''"
    and "calls (onstop w s) = calls s @ [ClearErrorAfter 3000, RecordingStopped]"
  using assms
  by (simp_all add: onstop_def try_block_def catch_block_def finally_block_def setError_def
      call_def Let_def)


lemma onstop_delivers:
  assumes "chunksRef s \<noteq> []" and "100 \<le> sum_list (chunksRef s)"
    and "try_block w (setError None (s\<lparr>isProcessing := True\<rparr>)) = (None, s1)"
  shows "error (onstop w s) = error s1" and "calls (onstop w s) = calls s1 @ [RecordingStopped]"
  using assms by (simp_all add: onstop_def finally_block_def call_def Let_def)

text \<open>
  Claim C3. When the cleanup request fails (the call throws, the response has no
  message content, or the content trims to the empty string),
  \<open>postProcessTranscription\<close> returns its input text. In the overlay, a run that
  reaches post-processing with such a failure continues with delivery of the
  transcribed text, in a state that differs from the one before the stage only by the
  logged request; when the calls to the main process succeed, the run ends with no
  error shown and with the transcribed text typed.
\<close>

theorem failed_cleanup_is_not_fatal:
  "(cleanup_failed (create key (cleanup_request t options)) \<longrightarrow>
      fst (postProcessTranscription t key options create) = t) \<and>
   (chunksRef s \<noteq> [] \<and> 100 \<le> sum_list (chunksRef s) \<and>
    getSettings w = Inr settings \<and> apiKey settings \<noteq> [] \<and>
    transcribeAudio w (sum_list (chunksRef s)) (mimeType w) (apiKey settings) = Inr t \<and>
    aiPostProcessing settings \<and> js_trim t \<noteq> [] \<and>
    cleanup_failed (create_completion w (apiKey settings)
        (cleanup_request t (overlay_options settings (dictionaryRef s)))) \<longrightarrow>
      try_block w s =
        deliver w settings t
          (s\<lparr>calls := calls s @
              [GetSettings,
               TranscribeAudio (sum_list (chunksRef s)) (mimeType w) (apiKey settings),
               ChatCompletion (cleanup_request t (overlay_options settings (dictionaryRef s)))]\<rparr>) \<and>
      (addWords w (length (tokenize (js_trim t))) = None \<and>
       (\<forall>r. addToHistory w r = None) \<and> typeText w t = Inr pasteSuccess \<longrightarrow>
         error (onstop w s) = None \<and>
         calls (onstop w s) = calls s @
              [GetSettings,
               TranscribeAudio (sum_list (chunksRef s)) (mimeType w) (apiKey settings),
               ChatCompletion (cleanup_request t (overlay_options settings (dictionaryRef s))),
               AddWords (length (tokenize (js_trim t)))] @
              (if incognitoMode settings then []
               else [AddToHistory \<lparr>tr_id = show_nat (dateNow w), tr_text = js_trim t,
                       tr_timestamp = dateNow w,
                       tr_wordCount = length (tokenize (js_trim t))\<rparr>]) @
              [TypeText t, RecordingStopped]))"
proof (intro conjI impI)
  assume "cleanup_failed (create key (cleanup_request t options))"
  then show "fst (postProcessTranscription t key options create) = t"
    by (rule postProcess_failed)
next
  let ?size = "sum_list (chunksRef s)"
  let ?request = "cleanup_request t (overlay_options settings (dictionaryRef s))"
  let ?pre = "[GetSettings, TranscribeAudio ?size (mimeType w) (apiKey settings),
               ChatCompletion ?request]"
  assume a: "chunksRef s \<noteq> [] \<and> 100 \<le> ?size \<and>
    getSettings w = Inr settings \<and> apiKey settings \<noteq> [] \<and>
    transcribeAudio w ?size (mimeType w) (apiKey settings) = Inr t \<and>
    aiPostProcessing settings \<and> js_trim t \<noteq> [] \<and>
    cleanup_failed (create_completion w (apiKey settings) ?request)"
  have tb: "\<And>s'. chunksRef s' = chunksRef s \<Longrightarrow> dictionaryRef s' = dictionaryRef s \<Longrightarrow>
      try_block w s' = deliver w settings t (s'\<lparr>calls := calls s' @ ?pre\<rparr>)"
  proof -
    fix s' :: overlay
    assume c: "chunksRef s' = chunksRef s" and d: "dictionaryRef s' = dictionaryRef s"
    let ?s2 = "s'\<lparr>calls := calls s' @
        [GetSettings, TranscribeAudio ?size (mimeType w) (apiKey settings)]\<rparr>"
    have "post_process_stage w settings t ?s2
          = (t, ?s2\<lparr>calls := calls ?s2 @ [ChatCompletion ?request]\<rparr>)"
      using a d by (intro post_process_stage_failed) simp_all
    then show "try_block w s' = deliver w settings t (s'\<lparr>calls := calls s' @ ?pre\<rparr>)"
      using a c try_block_transcribed [of s' w settings t] by simp
  qed
  show "try_block w s = deliver w settings t (s\<lparr>calls := calls s @ ?pre\<rparr>)"
    by (rule tb) simp_all
  assume b: "addWords w (length (tokenize (js_trim t))) = None \<and>
       (\<forall>r. addToHistory w r = None) \<and> typeText w t = Inr pasteSuccess"
  let ?s0 = "setError None (s\<lparr>isProcessing := True\<rparr>)"
  let ?post = "[AddWords (length (tokenize (js_trim t)))] @
          (if incognitoMode settings then []
           else [AddToHistory \<lparr>tr_id = show_nat (dateNow w), tr_text = js_trim t,
                   tr_timestamp = dateNow w,
                   tr_wordCount = length (tokenize (js_trim t))\<rparr>]) @
          [TypeText t]"
  let ?s3 = "?s0\<lparr>calls := calls ?s0 @ ?pre\<rparr>"
  have "try_block w ?s0 = deliver w settings t ?s3"
    by (rule tb) (simp_all add: setError_def)
  also have "\<dots> = (None, ?s3\<lparr>calls := calls ?s3 @ ?post\<rparr>)"
    using a b by (intro deliver_success) simp_all
  finally have run: "try_block w ?s0 = (None, ?s3\<lparr>calls := calls ?s3 @ ?post\<rparr>)" .
  show "error (onstop w s) = None"
    using onstop_delivers(1) [OF _ _ run] a by (simp add: setError_def)
  show "calls (onstop w s) = calls s @
              [GetSettings, TranscribeAudio ?size (mimeType w) (apiKey settings),
               ChatCompletion ?request, AddWords (length (tokenize (js_trim t)))] @
              (if incognitoMode settings then []
               else [AddToHistory \<lparr>tr_id = show_nat (dateNow w), tr_text = js_trim t,
                       tr_timestamp = dateNow w,
                       tr_wordCount = length (tokenize (js_trim t))\<rparr>]) @
              [TypeText t, RecordingStopped]"
    using onstop_delivers(2) [OF _ _ run] a by (simp add: setError_def)
qed


theorem failed_cleanup_is_not_fatal_witness:
  "cleanup_failed ((\<lambda>k r. ChatContent (Some ''  '')) ''gsk_demo''
      (cleanup_request ''so um hello'' (overlay_options demo_settings []))) \<and>
   (chunksRef (demo_overlay [4000, 4200] []) \<noteq> [] \<and>
    100 \<le> sum_list (chunksRef (demo_overlay [4000, 4200] [])) \<and>
    getSettings (demo_world (ChatThrows (Error ''Connection error.''))) = Inr demo_settings \<and>
    apiKey demo_settings \<noteq> [] \<and>
    transcribeAudio (demo_world (ChatThrows (Error ''Connection error.'')))
      (sum_list (chunksRef (demo_overlay [4000, 4200] [])))
      (mimeType (demo_world (ChatThrows (Error ''Connection error.''))))
      (apiKey demo_settings) = Inr ''open whisper is great'' \<and>
    aiPostProcessing demo_settings \<and> js_trim ''open whisper is great'' \<noteq> [] \<and>
    cleanup_failed (create_completion (demo_world (ChatThrows (Error ''Connection error.'')))
      (apiKey demo_settings)
      (cleanup_request ''open whisper is great''
        (overlay_options demo_settings (dictionaryRef (demo_overlay [4000, 4200] [])))))) \<and>
   (addWords (demo_world (ChatThrows (Error ''Connection error.'')))
      (length (tokenize (js_trim ''open whisper is great''))) = None \<and>
    (\<forall>r. addToHistory (demo_world (ChatThrows (Error ''Connection error.''))) r = None) \<and>
    typeText (demo_world (ChatThrows (Error ''Connection error.''))) ''open whisper is great''
      = Inr True) \<and>
   fst (postProcessTranscription ''so um hello'' ''gsk_demo'' (overlay_options demo_settings [])
      (\<lambda>k r. ChatContent (Some ''  ''))) = ''so um hello'' \<and>
   error (onstop (demo_world (ChatThrows (Error ''Connection error.'')))
      (demo_overlay [4000, 4200] [])) = None \<and>
   TypeText ''open whisper is great''
     \<in> set (calls (onstop (demo_world (ChatThrows (Error ''Connection error.'')))
                (demo_overlay [4000, 4200] [])))"
proof -
  let ?w = "demo_world (ChatThrows (Error ''Connection error.''))"
  let ?s = "demo_overlay [4000, 4200] []"
  let ?t = "''open whisper is great''"
  have tr: "js_trim ''  '' = []" "js_trim ?t \<noteq> []"
    by code_simp+
  have h1: "cleanup_failed ((\<lambda>k r. ChatContent (Some ''  '')) ''gsk_demo''
      (cleanup_request ''so um hello'' (overlay_options demo_settings [])))"
    by (simp add: tr)
  have h2: "chunksRef ?s \<noteq> [] \<and> 100 \<le> sum_list (chunksRef ?s) \<and>
    getSettings ?w = Inr demo_settings \<and> apiKey demo_settings \<noteq> [] \<and>
    transcribeAudio ?w (sum_list (chunksRef ?s)) (mimeType ?w) (apiKey demo_settings) = Inr ?t \<and>
    aiPostProcessing demo_settings \<and> js_trim ?t \<noteq> [] \<and>
    cleanup_failed (create_completion ?w (apiKey demo_settings)
      (cleanup_request ?t (overlay_options demo_settings (dictionaryRef ?s))))"
    using tr(2) by (simp add: demo_world_def demo_overlay_def demo_settings_def)
  have h3: "addWords ?w (length (tokenize (js_trim ?t))) = None \<and>
    (\<forall>r. addToHistory ?w r = None) \<and> typeText ?w ?t = Inr True"
    by (simp add: demo_world_def)
  note th = failed_cleanup_is_not_fatal [where create = "\<lambda>k r. ChatContent (Some ''  '')"
      and key = "''gsk_demo''" and t = "''so um hello''"
      and options = "overlay_options demo_settings []"]
  note th2 = failed_cleanup_is_not_fatal [where w = ?w and s = ?s and settings = demo_settings
      and t = ?t and pasteSuccess = True]
  have c1: "fst (postProcessTranscription ''so um hello'' ''gsk_demo''
      (overlay_options demo_settings []) (\<lambda>k r. ChatContent (Some ''  ''))) = ''so um hello''"
    using th h1 by blast
  have c2: "error (onstop ?w ?s) = None"
    using th2 h2 h3 by blast
  have "calls (onstop ?w ?s) = calls ?s @
      [GetSettings, TranscribeAudio (sum_list (chunksRef ?s)) (mimeType ?w) (apiKey demo_settings),
       ChatCompletion (cleanup_request ?t (overlay_options demo_settings (dictionaryRef ?s))),
       AddWords (length (tokenize (js_trim ?t)))] @
      (if incognitoMode demo_settings then []
       else [AddToHistory \<lparr>tr_id = show_nat (dateNow ?w), tr_text = js_trim ?t,
               tr_timestamp = dateNow ?w, tr_wordCount = length (tokenize (js_trim ?t))\<rparr>]) @
      [TypeText ?t, RecordingStopped]"
    using th2 h2 h3 by blast
  then have c3: "TypeText ?t \<in> set (calls (onstop ?w ?s))"
    by simp
  from h1 h2 h3 c1 c2 c3 show ?thesis
    by blast
qed

text \<open>
  Claim C8. A run that stops with no chunk, or with a clip of less than 100 bytes, is to
  end in the error state ``No audio'' or ``Too short'' without a transcription request.
  No request is made: the only calls are the timer that clears the error and the
  notification that recording stopped. The error state at the end is another one. The
  handler sets the short label and throws, and its \<^verbatim>\<open>catch\<close> block replaces the
  label by the first 15 characters of the thrown message.
\<close>

theorem onstop_error_message_overwritten:
  "error (onstop w (s\<lparr>chunksRef := []\<rparr>)) = Some ''No audio data c'' \<and>
   calls (onstop w (s\<lparr>chunksRef := []\<rparr>)) = calls s @ [ClearErrorAfter 3000, RecordingStopped] \<and>
   error (onstop w (s\<lparr>chunksRef := [60, 30]\<rparr>)) = Some ''Audio too short'' \<and>
   calls (onstop w (s\<lparr>chunksRef := [60, 30]\<rparr>))
     = calls s @ [ClearErrorAfter 3000, RecordingStopped]"
  using onstop_no_audio [of "s\<lparr>chunksRef := []\<rparr>" w]
    onstop_too_short [of "s\<lparr>chunksRef := [60, 30]\<rparr>" w]
  by simp

section \<open>Properties of the recording hook\<close>

lemma convertToWav_rejects:
  "decodeAudioData (blob_bytes b) = Inl e \<Longrightarrow> convertToWav decodeAudioData b = Inl e"
  by (simp add: convertToWav_def bind_res_def)

lemma useRecording_onstop_success:
  assumes "convertToWav decodeAudioData
      \<lparr>blob_bytes = concat (map blob_bytes (rec_chunks s)), blob_type = rec_mimeType s\<rparr> = Inr wav"
    and "rec_streamRef s"
  shows "rec_tracks (snd (useRecording_onstop decodeAudioData s))
         = map (\<lambda>track. Ended) (rec_tracks s)"
  using assms by (simp add: useRecording_onstop_def Let_def)

text \<open>
  The stop handler of the hook stops the tracks after the awaited conversion only: when
  decoding rejects, the handler ends with the error and leaves the state as it was.
\<close>

lemma useRecording_onstop_rejects:
  "useRecording_onstop (\<lambda>bytes. Inl e) s = (Some e, s)"
  by (simp add: useRecording_onstop_def convertToWav_rejects Let_def)

section \<open>Properties of the word counters\<close>

















section \<open>Properties of dictionary substitution\<close>













end
